theory Spec2Isabelle
  imports Complex_Main "HOL-Library.Word" "HOL-Library.Sublist" "HOL-Library.Log_Nat"
begin

section \<open>Values of the language\<close>

subsection \<open>Strings\<close>

text \<open>
  A string of the language is a finite sequence of 16-bit code units, and \<open>s.length\<close>
  counts code units. Literals of the source are ASCII; \<open>str\<close> embeds them.
\<close>

type_synonym code_unit = "16 word"
type_synonym jsstring = "code_unit list"

definition str :: "string \<Rightarrow> jsstring" where
  "str s = map of_char s"

subsection \<open>Numbers\<close>

text \<open>
  The type \<open>number\<close> of the source is the IEEE 754 binary64 format: the finite values
  (with two zeros), two infinities and NaN. A finite value is kept as the rational it
  denotes; \<open>Finite 0\<close> is the positive zero. The datatype has every rational; the
  binary64 values among them are told apart by \<open>is_double\<close> below, and what is proved
  for every value of the datatype holds for them in particular.
\<close>

datatype number = NaN | NegInfinity | NegZero | Finite rat | PosInfinity

fun tier :: "number \<Rightarrow> int" where
  "tier NegInfinity = - 1"
| "tier PosInfinity = 1"
| "tier _ = 0"

fun mag :: "number \<Rightarrow> rat" where
  "mag (Finite q) = q"
| "mag _ = 0"

text \<open>
  The comparison of two numbers is undefined (\<open>None\<close>) as soon as one of them is NaN;
  the two zeros compare equal. The four relational operators read that result as the
  language does: \<open>x > y\<close> compares \<open>y\<close> with \<open>x\<close>, and \<open>\<le>\<close>, \<open>\<ge>\<close> are false on an
  undefined comparison.
\<close>

definition lessThan_number :: "number \<Rightarrow> number \<Rightarrow> bool option" where
  "lessThan_number x y =
     (if x = NaN \<or> y = NaN then None
      else Some (tier x < tier y \<or> (tier x = tier y \<and> mag x < mag y)))"

definition op_lt :: "number \<Rightarrow> number \<Rightarrow> bool" where
  "op_lt x y = (lessThan_number x y = Some True)"

definition op_gt :: "number \<Rightarrow> number \<Rightarrow> bool" where
  "op_gt x y = (lessThan_number y x = Some True)"

definition op_le :: "number \<Rightarrow> number \<Rightarrow> bool" where
  "op_le x y = (lessThan_number y x = Some False)"

definition op_ge :: "number \<Rightarrow> number \<Rightarrow> bool" where
  "op_ge x y = (lessThan_number x y = Some False)"

subsection \<open>Multiplication\<close>

text \<open>
  The product of two numbers is the exact product of their values, rounded to the
  nearest binary64 value, ties to the even significand: 53 significant bits, the
  exponent of the last bit between \<open>-1074\<close> and \<open>971\<close>, and an infinity from \<open>2^1024\<close>
  on. The sign of the result is the exclusive or of the signs of the factors, also
  for a zero or an infinity.
\<close>

text \<open>The integer \<open>k\<close> with \<open>2^k \<le> a < 2^(k+1)\<close>, for \<open>a > 0\<close>.\<close>

definition floor_log2 :: "rat \<Rightarrow> int" where
  "floor_log2 a =
     (let (n, d) = quotient_of a; k = bitlen n - bitlen d
      in if 2 powi k \<le> a then k else k - 1)"

definition round_ties_even :: "rat \<Rightarrow> int" where
  "round_ties_even r =
     (let f = \<lfloor>r\<rfloor>; d = r - of_int f
      in if d < 1 / 2 then f
         else if 1 / 2 < d then f + 1
         else if even f then f else f + 1)"

definition signed :: "bool \<Rightarrow> rat \<Rightarrow> number" where
  "signed neg v =
     (if v = 0 then (if neg then NegZero else Finite 0)
      else Finite (if neg then - v else v))"

text \<open>
  The exponent of the last significant bit of the binary64 values around \<open>a\<close>, and
  \<open>a\<close> rounded to a multiple of that power of two.
\<close>

definition ulp_exp :: "rat \<Rightarrow> int" where
  "ulp_exp a = max (floor_log2 a) (- 1022) - 52"

definition rounded :: "rat \<Rightarrow> rat" where
  "rounded a = of_int (round_ties_even (a / 2 powi ulp_exp a)) * 2 powi ulp_exp a"

definition round64 :: "bool \<Rightarrow> rat \<Rightarrow> number" where
  "round64 neg a =
     (if a = 0 then signed neg 0
      else if 2 powi 1024 \<le> rounded a then (if neg then NegInfinity else PosInfinity)
      else signed neg (rounded a))"

fun negative :: "number \<Rightarrow> bool" where
  "negative NegInfinity = True"
| "negative NegZero = True"
| "negative (Finite q) = (q < 0)"
| "negative _ = False"

definition is_zero :: "number \<Rightarrow> bool" where
  "is_zero x = (x = NegZero \<or> x = Finite 0)"

definition is_infinite :: "number \<Rightarrow> bool" where
  "is_infinite x = (x = NegInfinity \<or> x = PosInfinity)"

definition multiply :: "number \<Rightarrow> number \<Rightarrow> number" where
  "multiply x y =
     (if x = NaN \<or> y = NaN then NaN
      else if is_infinite x \<or> is_infinite y then
        (if is_zero x \<or> is_zero y then NaN
         else if negative x \<noteq> negative y then NegInfinity else PosInfinity)
      else round64 (negative x \<noteq> negative y) (\<bar>mag x\<bar> * \<bar>mag y\<bar>))"

text \<open>
  The values of the type: a finite value is a binary64 value when rounding leaves it
  as it is.
\<close>

definition is_double :: "number \<Rightarrow> bool" where
  "is_double x = (case x of Finite q \<Rightarrow> round64 (q < 0) \<bar>q\<bar> = Finite q | _ \<Rightarrow> True)"

subsection \<open>The operator \<open>**\<close> with the exponent 2\<close>

text \<open>
  \<open>n ** 2\<close> is the only use of the operator in index.ts. For a base that is NaN, a zero
  or an infinity the language fixes the result (NaN, the positive zero, the positive
  infinity); for every other base it asks for an approximation of the real power. The
  model takes the best one, the binary64 value nearest to the real square, which is the
  product of the base with itself and agrees with the fixed cases.
\<close>

definition exponentiate_2 :: "number \<Rightarrow> number" where
  "exponentiate_2 base = multiply base base"

subsection \<open>Built-in operations of the host\<close>

text \<open>
  Three operations that the functions call are provided by the engine and are not code
  of the repository: the two case mappings of strings (they follow the Unicode tables
  of the engine) and the conversion of a number to a string in a template literal. The
  functions that use them take them from a \<open>host\<close>; what is proved holds for every host.
\<close>

record host =
  toUpperCase :: "jsstring \<Rightarrow> jsstring"
  toLowerCase :: "jsstring \<Rightarrow> jsstring"
  toString :: "number \<Rightarrow> jsstring"

section \<open>The functions of index.ts\<close>

subsection \<open>formatString\<close>

text \<open>
  The optional parameter is \<open>None\<close> when the argument is omitted or \<open>undefined\<close>;
  \<open>toUpper ?? true\<close> replaces exactly that case by \<open>true\<close>.
\<close>

definition nullish_or :: "'a option \<Rightarrow> 'a \<Rightarrow> 'a" where
  "nullish_or v d = (case v of None \<Rightarrow> d | Some x \<Rightarrow> x)"

definition formatString :: "host \<Rightarrow> jsstring \<Rightarrow> bool option \<Rightarrow> jsstring" where
  "formatString h input toUpper =
     (if nullish_or toUpper True then toUpperCase h input else toLowerCase h input)"

subsection \<open>filterByRating\<close>

record item =
  title :: jsstring
  rating :: number

definition filterByRating :: "'a item_scheme list \<Rightarrow> 'a item_scheme list" where
  "filterByRating items = filter (\<lambda>item. op_gt (rating item) (Finite 4)) items"

subsection \<open>concatenateArrays\<close>

text \<open>
  The rest parameter \<open>arrays\<close> is the list of the arguments; \<open>forEach\<close> visits them from
  left to right and each \<open>push(...item)\<close> appends the elements of one of them to \<open>items\<close>.
\<close>

definition concatenateArrays :: "'t list list \<Rightarrow> 't list" where
  "concatenateArrays arrays = foldl (\<lambda>items item. items @ item) [] arrays"

subsection \<open>Vehicle and Car\<close>

text \<open>The field \<open>make\<close> of the source is \<open>make'\<close> here.\<close>

record vehicle =
  make' :: jsstring
  year :: number

record car = vehicle +
  model :: jsstring

definition new_Vehicle :: "jsstring \<Rightarrow> number \<Rightarrow> vehicle" where
  "new_Vehicle mk yr = \<lparr>make' = mk, year = yr\<rparr>"

definition new_Car :: "jsstring \<Rightarrow> number \<Rightarrow> jsstring \<Rightarrow> car" where
  "new_Car mk yr md = vehicle.extend (new_Vehicle mk yr) (car.fields md)"

text \<open>\<open>getInfo\<close> is inherited by \<open>Car\<close>: it reads the two fields of the base class only.\<close>

definition getInfo :: "host \<Rightarrow> 'a vehicle_scheme \<Rightarrow> jsstring" where
  "getInfo h this = str ''Make: '' @ make' this @ str '', Year: '' @ toString h (year this)"

definition getModel :: "'a car_scheme \<Rightarrow> jsstring" where
  "getModel this = str ''Model: '' @ model this"

subsection \<open>processValue\<close>

text \<open>
  A value of type \<open>string | number\<close>, told apart by \<open>typeof\<close>. The length of a string is
  an integer below \<open>2^53\<close>, hence a number as it is.
\<close>

datatype string_or_number = StringValue jsstring | NumberValue number

fun processValue :: "string_or_number \<Rightarrow> number" where
  "processValue (StringValue v) = Finite (of_nat (length v))"
| "processValue (NumberValue v) = multiply v (Finite 2)"

subsection \<open>getMostExpensiveProduct\<close>

record product =
  name :: jsstring
  price :: number

datatype error = TypeError

text \<open>\<open>xs[i]\<close> is \<open>undefined\<close> (\<open>None\<close>) out of range.\<close>

definition index :: "'a list \<Rightarrow> nat \<Rightarrow> 'a option" where
  "index xs i = (if i < length xs then Some (xs ! i) else None)"

text \<open>
  The callback of \<open>forEach\<close>, as a function of the variable it assigns and of the
  element it is called with.
\<close>

definition callback :: "'a product_scheme \<Rightarrow> 'a product_scheme \<Rightarrow> 'a product_scheme" where
  "callback heightPriceProdect product =
     (if op_gt (price product) (price heightPriceProdect) then product
      else heightPriceProdect)"

text \<open>
  \<open>null\<close> is \<open>None\<close>. The callback reads \<open>heightPriceProdect.price\<close>; were \<open>products[0]\<close>
  undefined, its first call would throw a TypeError, and the list is not empty in that
  branch, so there is a first call.
\<close>

definition getMostExpensiveProduct ::
    "'a product_scheme list \<Rightarrow> error + 'a product_scheme option" where
  "getMostExpensiveProduct products =
     (if length products = 0 then Inr None
      else
        (case index products 0 of
           None \<Rightarrow> Inl TypeError
         | Some heightPriceProdect \<Rightarrow>
             Inr (Some (foldl callback heightPriceProdect products))))"

subsection \<open>getDayType\<close>

datatype Day = Monday | Tuesday | Wednesday | Thursday | Friday | Saturday | Sunday

definition getDayType :: "Day \<Rightarrow> jsstring" where
  "getDayType day =
     (if day = Saturday \<or> day = Sunday then str ''Weekend'' else str ''Weekday'')"

subsection \<open>squareAsync\<close>

text \<open>
  The promise returned by \<open>squareAsync\<close> is pending until the timer fires, 1000
  milliseconds after the call, and the callback of the timer settles it: rejected with
  a reason (\<open>Inl\<close>) or resolved with a value (\<open>Inr\<close>).
\<close>

datatype 'a promise = SettlesAfter nat "jsstring + 'a"

fun delay :: "'a promise \<Rightarrow> nat" where
  "delay (SettlesAfter ms r) = ms"

fun outcome :: "'a promise \<Rightarrow> jsstring + 'a" where
  "outcome (SettlesAfter ms r) = r"

definition squareAsync :: "number \<Rightarrow> number promise" where
  "squareAsync n =
     SettlesAfter 1000
       (if op_lt n (Finite 0) then Inl (str ''Error: Negative number not allowed'')
        else Inr (exponentiate_2 n))"

subsection \<open>getMostExpensiveProduct on an array with empty slots\<close>

text \<open>
  An array of the language may have empty slots: \<open>new Array(3)\<close> has three, and so has
  \<open>[, p]\<close> one before \<open>p\<close>. Here an array is a list of slots, \<open>None\<close> the empty one. Reading
  an empty slot gives \<open>undefined\<close>, and \<open>forEach\<close> does not call its callback for it. The
  state of the loop is the variable \<open>heightPriceProdect\<close>, which is \<open>undefined\<close> (\<open>None\<close>) when
  the slot 0 is empty; the callback reads its \<open>price\<close>, and that read throws a TypeError
  on \<open>undefined\<close>. The function returns the variable as it is at the end.
\<close>

datatype 'a nullable = Null | Undefined | Value 'a

fun forEach_sparse :: "('s \<Rightarrow> 'a \<Rightarrow> error + 's) \<Rightarrow> 's \<Rightarrow> 'a option list \<Rightarrow> error + 's" where
  "forEach_sparse f s [] = Inr s"
| "forEach_sparse f s (None # slots) = forEach_sparse f s slots"
| "forEach_sparse f s (Some x # slots) =
     (case f s x of Inl e \<Rightarrow> Inl e | Inr s' \<Rightarrow> forEach_sparse f s' slots)"

definition callback_sparse ::
    "'a product_scheme option \<Rightarrow> 'a product_scheme \<Rightarrow> error + 'a product_scheme option" where
  "callback_sparse heightPriceProdect product =
     (case heightPriceProdect of
        None \<Rightarrow> Inl TypeError
      | Some highest \<Rightarrow> Inr (Some (callback highest product)))"

definition getMostExpensiveProduct_sparse ::
    "'a product_scheme option list \<Rightarrow> error + 'a product_scheme nullable" where
  "getMostExpensiveProduct_sparse products =
     (if length products = 0 then Inr Null
      else
        (case forEach_sparse callback_sparse
                (case index products 0 of Some (Some first) \<Rightarrow> Some first | _ \<Rightarrow> None)
                products of
           Inl e \<Rightarrow> Inl e
         | Inr None \<Rightarrow> Inr Undefined
         | Inr (Some heightPriceProdect) \<Rightarrow> Inr (Value heightPriceProdect)))"

section \<open>Properties of the numbers\<close>

subsection \<open>Comparison\<close>

lemma op_gt_not_le: "op_gt x y \<Longrightarrow> \<not> op_le x y"
  by (simp add: op_gt_def op_le_def)

lemma op_ge_not_lt: "op_ge x y \<Longrightarrow> \<not> op_lt x y"
  by (simp add: op_ge_def op_lt_def)

lemma not_gt_ge: "x \<noteq> NaN \<Longrightarrow> y \<noteq> NaN \<Longrightarrow> \<not> op_gt y x \<Longrightarrow> op_ge x y"
  by (simp add: op_gt_def op_ge_def lessThan_number_def)

lemma op_gt_lt: "op_gt x y = op_lt y x"
  by (simp add: op_gt_def op_lt_def)

lemma op_gt_ge_trans: "op_gt x y \<Longrightarrow> op_ge y z \<Longrightarrow> op_gt x z"
  by (auto simp: op_gt_def op_ge_def lessThan_number_def split: if_splits)

lemma op_gt_imp_ge: "op_gt x y \<Longrightarrow> op_ge x y"
  by (auto simp: op_gt_def op_ge_def lessThan_number_def split: if_splits)

lemma op_ge_refl: "x \<noteq> NaN \<Longrightarrow> op_ge x x"
  by (simp add: op_ge_def lessThan_number_def)

subsection \<open>Rounding and doubling\<close>

lemma two_powi_Suc: "(2::rat) powi (k + 1) = 2 * 2 powi k"
  by (simp add: power_int_add)

lemma bitlen_powi_bounds:
  assumes "0 < n"
  shows "(2::rat) powi (bitlen n - 1) \<le> of_int n" and "of_int n < (2::rat) powi bitlen n"
proof -
  have b: "1 \<le> bitlen n" using assms by (auto simp: bitlen_alt_def)
  from bitlen_bounds [OF assms]
  have "2 ^ nat (bitlen n - 1) \<le> n" "n < 2 ^ nat (bitlen n)" by auto
  then have "(of_int (2 ^ nat (bitlen n - 1)) :: rat) \<le> of_int n"
    and "(of_int n :: rat) < of_int (2 ^ nat (bitlen n))"
    by (simp_all only: of_int_le_iff of_int_less_iff)
  then show "(2::rat) powi (bitlen n - 1) \<le> of_int n" and "of_int n < (2::rat) powi bitlen n"
    using b by (simp_all add: power_int_def)
qed

lemma floor_log2_bounds:
  assumes "0 < a"
  shows "2 powi (floor_log2 a) \<le> a \<and> a < 2 powi (floor_log2 a + 1)"
proof -
  obtain n d where q: "quotient_of a = (n, d)" by (cases "quotient_of a")
  have d: "0 < d" using q quotient_of_denom_pos by blast
  have a: "a = of_int n / of_int d" using q by (rule quotient_of_div)
  have n: "0 < n" using assms d a by (simp add: zero_less_divide_iff)
  define k where "k = bitlen n - bitlen d"
  have dpos: "(0::rat) < of_int d" using d by simp
  have hi: "a < 2 powi (k + 1)"
  proof -
    have "of_int n < (2::rat) powi (k + 1) * 2 powi (bitlen d - 1)"
      using bitlen_powi_bounds(2) [OF n] by (simp add: k_def flip: power_int_add)
    also have "\<dots> \<le> 2 powi (k + 1) * of_int d"
      using bitlen_powi_bounds(1) [OF d] by (simp add: mult_left_mono)
    finally show ?thesis using dpos by (simp add: a pos_divide_less_eq)
  qed
  have lo: "2 powi (k - 1) < a"
  proof -
    have "(2::rat) powi (k - 1) * of_int d < 2 powi (k - 1) * 2 powi bitlen d"
      using bitlen_powi_bounds(2) [OF d] by (simp add: mult_strict_left_mono)
    also have "\<dots> = 2 powi (bitlen n - 1)"
      by (simp add: k_def flip: power_int_add)
    also have "\<dots> \<le> of_int n" by (rule bitlen_powi_bounds(1) [OF n])
    finally show ?thesis using dpos by (simp add: a pos_less_divide_eq)
  qed
  show ?thesis
  proof (cases "2 powi k \<le> a")
    case True
    then have "floor_log2 a = k" by (simp add: floor_log2_def q k_def)
    with True hi show ?thesis by simp
  next
    case False
    then have "floor_log2 a = k - 1" by (simp add: floor_log2_def q k_def)
    with False lo show ?thesis by simp
  qed
qed

lemma two_powi_less_imp_less: "(2::rat) powi i < 2 powi j \<Longrightarrow> i < j"
  by (metis linorder_not_le one_le_numeral power_int_increasing)

lemma floor_log2_unique:
  assumes "2 powi k \<le> a" "a < 2 powi (k + 1)"
  shows "floor_log2 a = k"
proof -
  have "(0::rat) < 2 powi k" by simp
  then have pos: "0 < a" using assms(1) by (rule less_le_trans)
  from floor_log2_bounds [OF pos]
  have b: "2 powi (floor_log2 a) \<le> a" "a < 2 powi (floor_log2 a + 1)" by auto
  have "(2::rat) powi k < 2 powi (floor_log2 a + 1)" using assms(1) b(2) by simp
  then have 1: "k < floor_log2 a + 1" by (rule two_powi_less_imp_less)
  have "(2::rat) powi (floor_log2 a) < 2 powi (k + 1)" using assms(2) b(1) by simp
  then have 2: "floor_log2 a < k + 1" by (rule two_powi_less_imp_less)
  from 1 2 show ?thesis by simp
qed

lemma floor_log2_double:
  assumes "0 < a"
  shows "floor_log2 (2 * a) = floor_log2 a + 1"
proof (rule floor_log2_unique)
  from floor_log2_bounds [OF assms]
  have b: "2 powi (floor_log2 a) \<le> a" "a < 2 powi (floor_log2 a + 1)" by auto
  show "2 powi (floor_log2 a + 1) \<le> 2 * a" using b(1) by (simp add: two_powi_Suc)
  have "2 * a < 2 * 2 powi (floor_log2 a + 1)" using b(2) by simp
  also have "\<dots> = 2 powi (floor_log2 a + 1 + 1)" by (rule two_powi_Suc [symmetric])
  finally show "2 * a < 2 powi (floor_log2 a + 1 + 1)" .
qed

lemma round_ties_even_of_int: "round_ties_even (of_int m) = m"
  by (simp add: round_ties_even_def)

lemma round_ties_even_error: "\<bar>of_int (round_ties_even r) - r\<bar> \<le> 1 / 2"
proof -
  have "of_int \<lfloor>r\<rfloor> \<le> r" "r < of_int \<lfloor>r\<rfloor> + 1" by linarith+
  then show ?thesis
    by (auto simp: round_ties_even_def Let_def)
qed

lemma rounded_error: "\<bar>rounded a - a\<bar> \<le> 2 powi ulp_exp a / 2"
proof -
  define u :: rat where "u = 2 powi ulp_exp a"
  have u: "0 < u" by (simp add: u_def)
  have "rounded a - a = (of_int (round_ties_even (a / u)) - a / u) * u"
    using u by (simp add: rounded_def u_def algebra_simps)
  then have "\<bar>rounded a - a\<bar> = \<bar>of_int (round_ties_even (a / u)) - a / u\<bar> * u"
    using u by (simp add: abs_mult)
  also have "\<dots> \<le> 1 / 2 * u"
    using u round_ties_even_error [of "a / u"] by (intro mult_right_mono) simp_all
  finally show ?thesis by (simp add: u_def)
qed

lemma rounded_double:
  assumes "0 < a" "rounded a = a"
  shows "rounded (2 * a) = 2 * a"
proof -
  define e where "e = ulp_exp a"
  define m where "m = round_ties_even (a / 2 powi e)"
  have a: "a = of_int m * 2 powi e" using assms(2) by (simp add: rounded_def e_def m_def)
  show ?thesis
  proof (cases "- 1022 \<le> floor_log2 a")
    case True
    then have e': "ulp_exp (2 * a) = e + 1"
      by (simp add: ulp_exp_def e_def floor_log2_double [OF assms(1)])
    have "2 * a / 2 powi (e + 1) = of_int m" by (simp add: two_powi_Suc a)
    then show ?thesis
      by (simp add: rounded_def e' round_ties_even_of_int) (simp add: a two_powi_Suc)
  next
    case False
    then have e': "ulp_exp (2 * a) = e"
      by (simp add: ulp_exp_def e_def floor_log2_double [OF assms(1)])
    have "2 * a / 2 powi e = of_int (2 * m)" by (simp add: a)
    then show ?thesis
      by (simp add: rounded_def e' round_ties_even_of_int del: of_int_mult) (simp add: a)
  qed
qed

lemma is_double_rounded:
  assumes "is_double (Finite q)" "q \<noteq> 0"
  shows "rounded \<bar>q\<bar> = \<bar>q\<bar>"
  using assms
  by (auto simp: is_double_def round64_def signed_def split: if_splits)

lemma multiply_two:
  assumes "is_double (Finite q)"
  shows "multiply (Finite q) (Finite 2) =
           (if 2 * \<bar>q\<bar> < 2 powi 1024 then Finite (2 * q)
            else if q < 0 then NegInfinity else PosInfinity)"
proof (cases "q = 0")
  case True
  then show ?thesis
    by (simp add: multiply_def is_infinite_def round64_def signed_def)
next
  case False
  then have pos: "0 < \<bar>q\<bar>" by simp
  have r: "rounded (2 * \<bar>q\<bar>) = 2 * \<bar>q\<bar>"
    by (rule rounded_double [OF pos is_double_rounded [OF assms False]])
  have "multiply (Finite q) (Finite 2) = round64 (q < 0) (2 * \<bar>q\<bar>)"
    by (simp add: multiply_def is_infinite_def mult.commute)
  also have "\<dots> = (if 2 * \<bar>q\<bar> < 2 powi 1024 then Finite (2 * q)
            else if q < 0 then NegInfinity else PosInfinity)"
    using False by (simp add: round64_def r signed_def not_less)
  finally show ?thesis .
qed

text \<open>The integers below \<open>2^53\<close> in absolute value are binary64 values.\<close>

lemma rounded_of_nat:
  assumes "0 < n" "n < 2 ^ 53" and a: "a = of_nat n"
  shows "rounded a = a"
proof -
  have pos: "0 < a" using assms(1) by (simp add: a)
  from floor_log2_bounds [OF pos]
  have b: "2 powi (floor_log2 a) \<le> a" "a < 2 powi (floor_log2 a + 1)" by auto
  have "a < 2 ^ 53" using assms(2) unfolding a
    by (metis of_nat_less_iff of_nat_numeral of_nat_power)
  then have "(2::rat) powi (floor_log2 a) < 2 powi 53" using b(1) by simp
  then have up: "floor_log2 a < 53" by (rule two_powi_less_imp_less)
  have "(1::rat) \<le> a" using assms(1) by (simp add: a)
  then have "(2::rat) powi 0 < 2 powi (floor_log2 a + 1)" using b(2) by simp
  then have lo: "0 < floor_log2 a + 1" by (rule two_powi_less_imp_less)
  define s where "s = nat (52 - floor_log2 a)"
  have e: "ulp_exp a = - int s" using up lo by (simp add: ulp_exp_def s_def)
  have p: "(2::rat) powi (- int s) = 1 / 2 ^ s"
    by (simp add: power_int_minus_divide)
  have q: "a / 2 powi ulp_exp a = of_int (int (n * 2 ^ s))"
    unfolding e p by (simp add: a)
  have "round_ties_even (a / 2 powi ulp_exp a) = int (n * 2 ^ s)"
    unfolding q by (rule round_ties_even_of_int)
  then have "rounded a = of_int (int (n * 2 ^ s)) * (1 / 2 ^ s)"
    unfolding rounded_def e p by simp
  then show ?thesis by (simp add: a)
qed

lemma is_double_of_int:
  assumes "\<bar>n\<bar> < 2 ^ 53"
  shows "is_double (Finite (of_int n))"
proof (cases "n = 0")
  case True
  then show ?thesis by (simp add: is_double_def round64_def signed_def)
next
  case False
  define k where "k = nat \<bar>n\<bar>"
  have k: "0 < k" "k < 2 ^ 53" using False assms by (simp_all add: k_def nat_less_iff)
  have abs: "\<bar>rat_of_int n\<bar> = of_nat k" by (simp add: k_def)
  have r: "rounded (of_nat k) = of_nat k" by (rule rounded_of_nat [OF k refl])
  have "(of_nat k :: rat) < 2 ^ 53" using k(2)
    by (metis of_nat_less_iff of_nat_numeral of_nat_power)
  also have "\<dots> \<le> 2 ^ 1024" by (rule power_increasing) simp_all
  finally have small: "\<not> (2::rat) powi 1024 \<le> of_nat k" by simp
  have nz: "(of_nat k :: rat) \<noteq> 0" using k(1) by simp
  have "round64 (n < 0) (of_nat k) = signed (n < 0) (of_nat k)"
    by (simp only: round64_def r small nz if_False)
  also have "\<dots> = Finite (of_int n)"
    using nz by (simp add: signed_def) (simp add: k_def)
  finally show ?thesis by (simp add: is_double_def abs)
qed

section \<open>Properties of the functions\<close>

subsection \<open>Vehicle and Car\<close>

lemma getInfo_new_Vehicle:
  "getInfo h (new_Vehicle mk yr) = str ''Make: '' @ mk @ str '', Year: '' @ toString h yr"
  by (simp add: getInfo_def new_Vehicle_def)

lemma getInfo_new_Car: "getInfo h (new_Car mk yr md) = getInfo h (new_Vehicle mk yr)"
  by (simp add: getInfo_def new_Car_def new_Vehicle_def vehicle.extend_def car.fields_def)

lemma getModel_new_Car: "getModel (new_Car mk yr md) = str ''Model: '' @ md"
  by (simp add: getModel_def new_Car_def new_Vehicle_def vehicle.extend_def car.fields_def)

subsection \<open>squareAsync\<close>

lemma multiply_self: "multiply (Finite q) (Finite q) = round64 False (q * q)"
  by (simp add: multiply_def is_infinite_def flip: abs_mult)

lemma round64_at_2_27:
  "round64 False 18014398777917441 = Finite 18014398777917440"
proof -
  have f: "floor_log2 18014398777917441 = 54"
    by (rule floor_log2_unique) simp_all
  have fl: "\<lfloor>18014398777917441 / 4 :: rat\<rfloor> = 4503599694479360"
    by (rule floor_unique) simp_all
  have t: "round_ties_even (18014398777917441 / 4) = 4503599694479360"
    by (simp add: round_ties_even_def fl Let_def)
  have r: "rounded 18014398777917441 = 18014398777917440"
    by (simp add: rounded_def ulp_exp_def f t)
  have "(18014398777917440 :: rat) < 2 ^ 55" by simp
  also have "(2 :: rat) ^ 55 \<le> 2 ^ 1024" by (rule power_increasing) simp_all
  finally have small: "\<not> (2 :: rat) powi 1024 \<le> 18014398777917440" by simp
  show ?thesis
    by (simp only: round64_def r small signed_def) simp
qed

text \<open>
  The square of a binary64 value need not be one: \<open>2^27 + 1\<close> is, its square
  \<open>2^54 + 2^28 + 1\<close> has 55 significant bits and is not, so that no number is that
  square; the promise is resolved with the binary64 value below it.
\<close>

theorem squareAsync_inexact_counterexample:
  "op_ge (Finite 134217729) (Finite 0)
   \<and> is_double (Finite 134217729)
   \<and> outcome (squareAsync (Finite 134217729)) = Inr (Finite 18014398777917440)
   \<and> (134217729 :: rat) * 134217729 = 18014398777917441
   \<and> \<not> is_double (Finite 18014398777917441)"
proof -
  have ge: "op_ge (Finite 134217729) (Finite 0)"
    by (simp add: op_ge_def lessThan_number_def)
  have d: "is_double (Finite 134217729)" using is_double_of_int [of 134217729] by simp
  have sq: "(134217729 :: rat) * 134217729 = 18014398777917441" by simp
  have "\<not> op_lt (Finite 134217729) (Finite 0)" by (simp add: op_lt_def lessThan_number_def)
  then have "outcome (squareAsync (Finite 134217729)) = Inr (round64 False (134217729 * 134217729))"
    by (simp only: squareAsync_def exponentiate_2_def multiply_self outcome.simps if_False)
  then have r: "outcome (squareAsync (Finite 134217729)) = Inr (Finite 18014398777917440)"
    by (simp only: sq round64_at_2_27)
  have n: "\<not> is_double (Finite 18014398777917441)"
    by (simp add: is_double_def round64_at_2_27)
  from ge d r sq n show ?thesis by blast
qed

text \<open>
  C1. For every number \<open>n\<close>, the promise of \<open>squareAsync(n)\<close> is rejected if and only if
  \<open>n < 0\<close>, then with the message of the source as its reason; for every \<open>n \<ge> 0\<close> it is
  resolved with \<open>n ** 2\<close>, the product of \<open>n\<close> with itself in the arithmetic of the type:
  for a finite \<open>n\<close> the square of \<open>n\<close> rounded to the nearest binary64 value, which is
  the square itself whenever the square is a binary64 value and is never further from
  it than half a unit of the last bit; the positive infinity for the positive infinity
  and the positive zero for a zero.
\<close>

theorem squareAsync_rounded_square:
  "((\<exists>reason. outcome (squareAsync n) = Inl reason) \<longleftrightarrow> op_lt n (Finite 0))
   \<and> (op_lt n (Finite 0) \<longrightarrow>
        outcome (squareAsync n) = Inl (str ''Error: Negative number not allowed''))
   \<and> (op_ge n (Finite 0) \<longrightarrow> outcome (squareAsync n) = Inr (multiply n n))
   \<and> (0 \<le> q \<longrightarrow> outcome (squareAsync (Finite q)) = Inr (round64 False (q * q)))
   \<and> (0 \<le> q \<and> is_double (Finite (q * q)) \<longrightarrow>
        outcome (squareAsync (Finite q)) = Inr (Finite (q * q)))
   \<and> (0 \<le> q \<and> outcome (squareAsync (Finite q)) = Inr (Finite r) \<longrightarrow>
        \<bar>r - q * q\<bar> \<le> 2 powi ulp_exp (q * q) / 2)
   \<and> outcome (squareAsync PosInfinity) = Inr PosInfinity
   \<and> outcome (squareAsync NegZero) = Inr (Finite 0)"
proof -
  have nonneg: "outcome (squareAsync (Finite q)) = Inr (round64 False (q * q))" if "0 \<le> q"
    using that
    by (simp add: squareAsync_def exponentiate_2_def multiply_self op_lt_def lessThan_number_def)
  have exact: "outcome (squareAsync (Finite q)) = Inr (Finite (q * q))"
    if "0 \<le> q" "is_double (Finite (q * q))"
  proof -
    have "round64 False (q * q) = Finite (q * q)"
      using that(2) by (simp add: is_double_def not_less)
    with nonneg [OF that(1)] show ?thesis by simp
  qed
  have near: "\<bar>r - q * q\<bar> \<le> 2 powi ulp_exp (q * q) / 2"
    if "0 \<le> q" "outcome (squareAsync (Finite q)) = Inr (Finite r)"
  proof -
    from nonneg [OF that(1)] that(2) have e: "round64 False (q * q) = Finite r" by simp
    show ?thesis
    proof (cases "q * q = 0")
      case True
      with e have "r = 0" by (simp add: round64_def signed_def)
      with True show ?thesis by simp
    next
      case False
      with e have "r = rounded (q * q)"
        by (auto simp: round64_def signed_def split: if_splits)
      then show ?thesis by (simp only: rounded_error)
    qed
  qed
  have inf: "outcome (squareAsync PosInfinity) = Inr PosInfinity"
    by (simp add: squareAsync_def exponentiate_2_def multiply_def is_infinite_def is_zero_def
        op_lt_def lessThan_number_def)
  have zero: "outcome (squareAsync NegZero) = Inr (Finite 0)"
    by (simp add: squareAsync_def exponentiate_2_def multiply_def is_infinite_def round64_def
        signed_def op_lt_def lessThan_number_def)
  have rej: "(\<exists>reason. outcome (squareAsync n) = Inl reason) \<longleftrightarrow> op_lt n (Finite 0)"
    by (simp add: squareAsync_def)
  have msg: "op_lt n (Finite 0) \<longrightarrow>
      outcome (squareAsync n) = Inl (str ''Error: Negative number not allowed'')"
    by (simp add: squareAsync_def)
  have res: "op_ge n (Finite 0) \<longrightarrow> outcome (squareAsync n) = Inr (multiply n n)"
    by (auto simp: squareAsync_def exponentiate_2_def dest: op_ge_not_lt)
  from rej msg res nonneg exact near inf zero show ?thesis by blast
qed

theorem squareAsync_rounded_square_witness:
  "op_ge (Finite 3) (Finite 0)
   \<and> is_double (Finite 9)
   \<and> outcome (squareAsync (Finite 3)) = Inr (Finite 9)
   \<and> op_lt (Finite (- 2)) (Finite 0)
   \<and> outcome (squareAsync (Finite (- 2))) = Inl (str ''Error: Negative number not allowed'')"
proof -
  have ge: "op_ge (Finite 3) (Finite 0)" by (simp add: op_ge_def lessThan_number_def)
  have lt: "op_lt (Finite (- 2)) (Finite 0)" by (simp add: op_lt_def lessThan_number_def)
  have d: "is_double (Finite 9)" using is_double_of_int [of 9] by simp
  then have d': "is_double (Finite (3 * 3))" by simp
  note t = squareAsync_rounded_square [of "Finite (- 2)" 3 9]
  from t lt have m: "outcome (squareAsync (Finite (- 2)))
      = Inl (str ''Error: Negative number not allowed'')"
    by blast
  from t have "(0 :: rat) \<le> 3 \<and> is_double (Finite (3 * 3)) \<longrightarrow>
      outcome (squareAsync (Finite 3)) = Inr (Finite (3 * 3))"
    by blast
  with d' have "outcome (squareAsync (Finite 3)) = Inr (Finite (3 * 3))" by simp
  then have r: "outcome (squareAsync (Finite 3)) = Inr (Finite 9)" by simp
  from ge d r lt m show ?thesis by blast
qed

lemma squareAsync_delay: "delay (squareAsync n) = 1000"
  by (simp add: squareAsync_def)

subsection \<open>getMostExpensiveProduct\<close>

lemma scan_first_max:
  assumes "\<forall>q \<in> set (pre @ c # post @ xs). price q \<noteq> NaN"
    and "\<forall>q \<in> set pre. op_lt (price q) (price c)"
    and "\<forall>q \<in> set post. op_ge (price c) (price q)"
  shows "\<exists>pre' best post'. foldl callback c xs = best \<and> pre @ c # post @ xs = pre' @ best # post'
           \<and> (\<forall>q \<in> set pre'. op_lt (price q) (price best))
           \<and> (\<forall>q \<in> set post'. op_ge (price best) (price q))"
  using assms
proof (induction xs arbitrary: pre c post)
  case Nil
  then show ?case by auto
next
  case (Cons x xs)
  show ?case
  proof (cases "op_gt (price x) (price c)")
    case True
    have 1: "\<forall>q \<in> set ((pre @ c # post) @ x # [] @ xs). price q \<noteq> NaN"
      using Cons.prems(1) by auto
    have 2: "\<forall>q \<in> set (pre @ c # post). op_lt (price q) (price x)"
    proof
      fix q assume q: "q \<in> set (pre @ c # post)"
      have "op_ge (price c) (price q)"
      proof -
        from q consider "q \<in> set pre" | "q = c" | "q \<in> set post" by auto
        then show ?thesis
        proof cases
          case 1
          then have "op_gt (price c) (price q)" using Cons.prems(2) by (simp add: op_gt_lt)
          then show ?thesis by (rule op_gt_imp_ge)
        next
          case 2
          then show ?thesis using Cons.prems(1) by (simp add: op_ge_refl)
        next
          case 3
          then show ?thesis using Cons.prems(3) by simp
        qed
      qed
      with True have "op_gt (price x) (price q)" by (rule op_gt_ge_trans)
      then show "op_lt (price q) (price x)" by (simp add: op_gt_lt)
    qed
    have 3: "\<forall>q \<in> set []. op_ge (price x) (price q)" by simp
    from Cons.IH [OF 1 2 3] True show ?thesis by (simp add: callback_def)
  next
    case False
    have 1: "\<forall>q \<in> set (pre @ c # (post @ [x]) @ xs). price q \<noteq> NaN"
      using Cons.prems(1) by auto
    have "op_ge (price c) (price x)"
      using False Cons.prems(1) by (intro not_gt_ge) auto
    then have 3: "\<forall>q \<in> set (post @ [x]). op_ge (price c) (price q)"
      using Cons.prems(3) by auto
    from Cons.IH [OF 1 Cons.prems(2) 3] False show ?thesis by (simp add: callback_def)
  qed
qed

lemma getMostExpensiveProduct_Cons:
  "getMostExpensiveProduct (p # ps) = Inr (Some (foldl callback p ps))"
proof -
  have "callback p p = p" by (simp add: callback_def)
  then show ?thesis
    by (simp add: getMostExpensiveProduct_def index_def callback_def)
qed

text \<open>
  A price that is NaN is neither above nor below any other: a list that begins with
  such a product gives it back, whatever the prices after it.
\<close>

theorem getMostExpensiveProduct_NaN_counterexample:
  "getMostExpensiveProduct
     [\<lparr>name = str ''a'', price = NaN\<rparr>, \<lparr>name = str ''b'', price = Finite 5\<rparr>]
     = Inr (Some \<lparr>name = str ''a'', price = NaN\<rparr>)
   \<and> \<not> op_ge (price \<lparr>name = str ''a'', price = NaN\<rparr>)
               (price \<lparr>name = str ''b'', price = Finite 5\<rparr>)"
  by (simp add: getMostExpensiveProduct_def index_def callback_def op_gt_def op_ge_def
      lessThan_number_def)

text \<open>
  C2. For every non-empty list of products none of whose prices is NaN,
  \<open>getMostExpensiveProduct\<close> returns a product of the list whose price is greater than
  or equal to the price of every product of the list, and every product before it in
  the list has a strictly smaller price: of the products that share the highest price
  it is the first.
\<close>

theorem getMostExpensiveProduct_first_max:
  assumes "products \<noteq> []" and "\<forall>q \<in> set products. price q \<noteq> NaN"
  shows "\<exists>pre best post.
           getMostExpensiveProduct products = Inr (Some best)
         \<and> products = pre @ best # post
         \<and> (\<forall>q \<in> set products. op_ge (price best) (price q))
         \<and> (\<forall>q \<in> set pre. op_lt (price q) (price best))"
proof -
  obtain p ps where ps: "products = p # ps" using assms(1) by (cases products) auto
  have "\<exists>pre' best post'. foldl callback p ps = best \<and> [] @ p # [] @ ps = pre' @ best # post'
           \<and> (\<forall>q \<in> set pre'. op_lt (price q) (price best))
           \<and> (\<forall>q \<in> set post'. op_ge (price best) (price q))"
    using assms(2) by (intro scan_first_max) (auto simp: ps)
  then obtain pre best post where b: "foldl callback p ps = best" "p # ps = pre @ best # post"
    "\<forall>q \<in> set pre. op_lt (price q) (price best)" "\<forall>q \<in> set post. op_ge (price best) (price q)"
    by auto
  have "op_ge (price best) (price q)" if "q \<in> set products" for q
  proof -
    from that b(2) ps consider "q \<in> set pre" | "q = best" | "q \<in> set post" by auto
    then show ?thesis
    proof cases
      case 1
      then have "op_gt (price best) (price q)" using b(3) by (simp add: op_gt_lt)
      then show ?thesis by (rule op_gt_imp_ge)
    next
      case 2
      have "best \<in> set products" using b(2) ps by simp
      then show ?thesis using assms(2) 2 by (simp add: op_ge_refl)
    next
      case 3
      then show ?thesis using b(4) by simp
    qed
  qed
  then have all: "\<forall>q \<in> set products. op_ge (price best) (price q)" by blast
  have g: "getMostExpensiveProduct products = Inr (Some best)"
    using ps b(1) by (simp add: getMostExpensiveProduct_Cons)
  have d: "products = pre @ best # post" using ps b(2) by simp
  from g d all b(3) show ?thesis by blast
qed

theorem getMostExpensiveProduct_first_max_witness:
  "getMostExpensiveProduct
     [\<lparr>name = str ''a'', price = Finite 3\<rparr>, \<lparr>name = str ''b'', price = Finite 7\<rparr>,
      \<lparr>name = str ''c'', price = Finite 7\<rparr>]
     = Inr (Some \<lparr>name = str ''b'', price = Finite 7\<rparr>)"
proof -
  let ?a = "\<lparr>name = str ''a'', price = Finite 3\<rparr>"
  let ?b = "\<lparr>name = str ''b'', price = Finite 7\<rparr>"
  let ?c = "\<lparr>name = str ''c'', price = Finite 7\<rparr>"
  have ne: "[?a, ?b, ?c] \<noteq> []" by simp
  have nn: "\<forall>q \<in> set [?a, ?b, ?c]. price q \<noteq> NaN" by simp
  from getMostExpensiveProduct_first_max [OF ne nn]
  obtain pre best post where r: "getMostExpensiveProduct [?a, ?b, ?c] = Inr (Some best)"
    and d: "[?a, ?b, ?c] = pre @ best # post"
    and hi: "\<forall>q \<in> set [?a, ?b, ?c]. op_ge (price best) (price q)"
    and lo: "\<forall>q \<in> set pre. op_lt (price q) (price best)"
    by blast
  have "best \<in> set [?a, ?b, ?c]" using d by simp
  then consider "best = ?a" | "best = ?b" | "best = ?c" by auto
  then have "best = ?b"
  proof cases
    case 1
    with hi have "op_ge (Finite 3) (Finite 7)" by simp
    then show ?thesis by (simp add: op_ge_def lessThan_number_def)
  next
    case 2
    then show ?thesis .
  next
    case 3
    have "str ''a'' \<noteq> str ''c''" "str ''b'' \<noteq> str ''c''" by (simp_all add: str_def)
    with d 3 have "pre = [?a, ?b]"
      by (auto simp: Cons_eq_append_conv append_eq_Cons_conv)
    with lo 3 have "op_lt (Finite 7) (Finite 7)" by simp
    then show ?thesis by (simp add: op_lt_def lessThan_number_def)
  qed
  with r show ?thesis by simp
qed

text \<open>
  C3. \<open>getMostExpensiveProduct\<close> returns \<open>null\<close> on the empty list, and on the empty list
  only.
\<close>

theorem getMostExpensiveProduct_null:
  "getMostExpensiveProduct [] = Inr None
   \<and> (getMostExpensiveProduct products = Inr None \<longleftrightarrow> products = [])"
  by (cases products) (simp_all add: getMostExpensiveProduct_def index_def)

theorem getMostExpensiveProduct_null_witness:
  "getMostExpensiveProduct ([] :: product list) = Inr None
   \<and> getMostExpensiveProduct [\<lparr>name = str ''a'', price = Finite 3\<rparr>] \<noteq> Inr None"
  using getMostExpensiveProduct_null [of "[] :: product list"]
    getMostExpensiveProduct_null [of "[\<lparr>name = str ''a'', price = Finite 3\<rparr>]"]
  by simp

subsection \<open>filterByRating\<close>

text \<open>
  C4. For every list of rated records, \<open>filterByRating\<close> returns the records whose rating
  is strictly above 4 and no other, each as often as the list has it and in the order
  of the list; a record whose rating is at most 4 is never in the result.
\<close>

theorem filterByRating_above_threshold:
  "filterByRating items = filter (\<lambda>item. op_gt (rating item) (Finite 4)) items
   \<and> subseq (filterByRating items) items
   \<and> (\<forall>x. count_list (filterByRating items) x
            = (if op_gt (rating x) (Finite 4) then count_list items x else 0))
   \<and> (\<forall>x \<in> set (filterByRating items). op_gt (rating x) (Finite 4))
   \<and> (\<forall>x. op_le (rating x) (Finite 4) \<longrightarrow> x \<notin> set (filterByRating items))"
proof -
  have c: "count_list (filter P xs) x = (if P x then count_list xs x else 0)"
    for P and xs :: "'b list" and x
    by (induction xs) auto
  show ?thesis
    by (auto simp: filterByRating_def c dest: op_gt_not_le)
qed

theorem filterByRating_above_threshold_witness:
  "filterByRating
     [\<lparr>title = str ''a'', rating = Finite 5\<rparr>, \<lparr>title = str ''b'', rating = Finite 4\<rparr>,
      \<lparr>title = str ''c'', rating = NaN\<rparr>, \<lparr>title = str ''d'', rating = Finite (9 / 2)\<rparr>]
   = [\<lparr>title = str ''a'', rating = Finite 5\<rparr>, \<lparr>title = str ''d'', rating = Finite (9 / 2)\<rparr>]
   \<and> op_le (rating \<lparr>title = str ''b'', rating = Finite 4\<rparr>) (Finite 4)"
  using filterByRating_above_threshold
    [of "[\<lparr>title = str ''a'', rating = Finite 5\<rparr>, \<lparr>title = str ''b'', rating = Finite 4\<rparr>,
      \<lparr>title = str ''c'', rating = NaN\<rparr>, \<lparr>title = str ''d'', rating = Finite (9 / 2)\<rparr>]"]
  by (simp add: op_gt_def op_le_def lessThan_number_def)

subsection \<open>concatenateArrays\<close>

lemma foldl_append_concat: "foldl (\<lambda>items item. items @ item) acc arrays = acc @ concat arrays"
  by (induction arrays arbitrary: acc) simp_all

text \<open>
  C5. For any number of arrays, \<open>concatenateArrays\<close> returns the elements of the first,
  then those of the second, and so on, each array in its own order, and the length of
  the result is the sum of the lengths of the arrays.
\<close>

theorem concatenateArrays_order_length:
  "concatenateArrays arrays = concat arrays
   \<and> length (concatenateArrays arrays) = sum_list (map length arrays)
   \<and> concatenateArrays (first # others) = first @ concatenateArrays others"
  by (simp add: concatenateArrays_def foldl_append_concat length_concat)

theorem concatenateArrays_order_length_witness:
  "concatenateArrays [[1, 2], [], [3 :: nat], [4, 5]] = [1, 2, 3, 4, 5]
   \<and> length (concatenateArrays [[1, 2], [], [3 :: nat], [4, 5]]) = 5"
proof -
  note t = concatenateArrays_order_length [of "[[1, 2], [], [3 :: nat], [4, 5]]" "[]" "[]"]
  from t have "concatenateArrays [[1, 2], [], [3 :: nat], [4, 5]]
      = concat [[1, 2], [], [3 :: nat], [4, 5]]"
    by blast
  then have a: "concatenateArrays [[1, 2], [], [3 :: nat], [4, 5]] = [1, 2, 3, 4, 5]"
    by simp
  from t have "length (concatenateArrays [[1, 2], [], [3 :: nat], [4, 5]])
      = sum_list (map length [[1, 2], [], [3 :: nat], [4, 5]])"
    by blast
  then have b: "length (concatenateArrays [[1, 2], [], [3 :: nat], [4, 5]]) = 5"
    by simp
  from a b show ?thesis by blast
qed

text \<open>
  C10. \<open>concatenateArrays\<close> of no array is the empty array, and of one array \<open>xs\<close> it is
  an array equal to \<open>xs\<close>.
\<close>

theorem concatenateArrays_identity:
  "concatenateArrays [] = [] \<and> concatenateArrays [xs] = xs"
  by (simp add: concatenateArrays_def)

theorem concatenateArrays_identity_witness:
  "concatenateArrays ([] :: nat list list) = [] \<and> concatenateArrays [[7, 8, 9 :: nat]] = [7, 8, 9]"
  using concatenateArrays_identity [of "[7, 8, 9 :: nat]"]
  by simp

subsection \<open>formatString\<close>

text \<open>
  C6. For every string \<open>s\<close>, \<open>formatString(s, true)\<close> is the upper case of \<open>s\<close>,
  \<open>formatString(s, false)\<close> is its lower case, and \<open>formatString(s)\<close>, the flag omitted,
  is \<open>formatString(s, true)\<close>.
\<close>

theorem formatString_flag:
  "formatString h s (Some True) = toUpperCase h s
   \<and> formatString h s (Some False) = toLowerCase h s
   \<and> formatString h s None = formatString h s (Some True)"
  by (simp add: formatString_def nullish_or_def)

theorem formatString_flag_witness:
  "\<forall>h. formatString h (str ''Hello'') None = toUpperCase h (str ''Hello'')
     \<and> formatString h (str ''Hello'') (Some False) = toLowerCase h (str ''Hello'')"
  using formatString_flag [of _ "str ''Hello''"]
  by simp

subsection \<open>getDayType\<close>

text \<open>
  C7. \<open>getDayType\<close> returns "Weekend" for Saturday and for Sunday and for no other day,
  and "Weekday" for every other day of the week.
\<close>

theorem getDayType_weekend:
  "(getDayType day = str ''Weekend'' \<longleftrightarrow> day = Saturday \<or> day = Sunday)
   \<and> (getDayType day = str ''Weekday'' \<longleftrightarrow> day \<noteq> Saturday \<and> day \<noteq> Sunday)"
  by (simp add: getDayType_def str_def)

theorem getDayType_weekend_witness:
  "getDayType Sunday = str ''Weekend'' \<and> getDayType Wednesday = str ''Weekday''"
  using getDayType_weekend [of Sunday] getDayType_weekend [of Wednesday]
  by simp

subsection \<open>processValue\<close>

text \<open>
  C8. For every value, \<open>processValue\<close> returns the length of the value when it is a
  string and twice the value when it is a number: the product of the value and 2 in
  the arithmetic of the type, which for a finite value \<open>q\<close> is \<open>2 * q\<close> itself as long as
  that is below \<open>2^1024\<close> in absolute value and the infinity of the sign of \<open>q\<close> from
  there on; twice a zero, an infinity or NaN is the same zero, infinity or NaN.
\<close>

theorem processValue_length_or_double:
  "processValue (StringValue s) = Finite (of_nat (length s))
   \<and> processValue (NumberValue x) = multiply x (Finite 2)
   \<and> (is_double (Finite q) \<longrightarrow>
        processValue (NumberValue (Finite q)) =
          (if 2 * \<bar>q\<bar> < 2 powi 1024 then Finite (2 * q)
           else if q < 0 then NegInfinity else PosInfinity))
   \<and> processValue (NumberValue NegZero) = NegZero
   \<and> processValue (NumberValue PosInfinity) = PosInfinity
   \<and> processValue (NumberValue NegInfinity) = NegInfinity
   \<and> processValue (NumberValue NaN) = NaN"
  by (simp add: multiply_two)
    (simp add: multiply_def is_infinite_def is_zero_def round64_def signed_def)

theorem processValue_length_or_double_witness:
  "is_double (Finite 10)
   \<and> processValue (NumberValue (Finite 10)) = Finite 20
   \<and> processValue (StringValue (str ''hello'')) = Finite 5"
proof -
  have d: "is_double (Finite 10)" using is_double_of_int [of 10] by simp
  have "(2::rat) * 10 < 2 ^ 5" by simp
  also have "(2::rat) ^ 5 \<le> 2 ^ 1024" by (rule power_increasing) simp_all
  finally have small: "2 * \<bar>10 :: rat\<bar> < 2 powi 1024" by simp
  note t = processValue_length_or_double [of "str ''hello''" "Finite 10" 10]
  from t have "is_double (Finite 10) \<longrightarrow>
      processValue (NumberValue (Finite 10)) =
        (if 2 * \<bar>10 :: rat\<bar> < 2 powi 1024 then Finite (2 * 10)
         else if (10 :: rat) < 0 then NegInfinity else PosInfinity)"
    by blast
  with d small have n: "processValue (NumberValue (Finite 10)) = Finite 20"
    by (simp del: processValue.simps)
  from t have "processValue (StringValue (str ''hello'')) = Finite (of_nat (length (str ''hello'')))"
    by blast
  then have s: "processValue (StringValue (str ''hello'')) = Finite 5"
    by (simp add: str_def del: processValue.simps)
  from d n s show ?thesis by blast
qed

subsection \<open>No failure without empty slots, one absence\<close>

text \<open>
  The one operation of index.ts that can throw on a value of its parameter's type is the
  read of \<open>heightPriceProdect.price\<close>: the other operations call string methods on
  strings, compare and multiply numbers, and run \<open>filter\<close>, \<open>forEach\<close> and \<open>push\<close> on
  arrays, none of which throws. What each of them returns is stated below; where
  \<open>getMostExpensiveProduct\<close> throws and what it returns is derived from its loop.
\<close>

lemma forEach_sparse_defined:
  "\<exists>p. forEach_sparse callback_sparse (Some c) slots = Inr (Some p)"
proof (induction slots arbitrary: c)
  case Nil
  then show ?case by simp
next
  case (Cons s slots)
  then show ?case by (cases s) (simp_all add: callback_sparse_def)
qed

lemma forEach_sparse_dense:
  "forEach_sparse callback_sparse (Some c) (map Some ps) = Inr (Some (foldl callback c ps))"
  by (induction ps arbitrary: c) (simp_all add: callback_sparse_def)

lemma forEach_sparse_undefined:
  "forEach_sparse callback_sparse None slots =
     (if \<exists>p. Some p \<in> set slots then Inl TypeError else Inr None)"
proof (induction slots)
  case Nil
  then show ?case by simp
next
  case (Cons s slots)
  then show ?case by (cases s) (auto simp: callback_sparse_def)
qed

lemma index_hd: "slots \<noteq> [] \<Longrightarrow> index slots 0 = Some (hd slots)"
  by (cases slots) (simp_all add: index_def)

lemma getMostExpensiveProduct_sparse_dense:
  "getMostExpensiveProduct_sparse (map Some ps) =
     (case getMostExpensiveProduct ps of
        Inl e \<Rightarrow> Inl e
      | Inr None \<Rightarrow> Inr Null
      | Inr (Some p) \<Rightarrow> Inr (Value p))"
proof (cases ps)
  case Nil
  then show ?thesis by (simp add: getMostExpensiveProduct_sparse_def getMostExpensiveProduct_def)
next
  case (Cons p ps')
  have "forEach_sparse callback_sparse (Some p) (map Some (p # ps'))
      = Inr (Some (foldl callback p (p # ps')))"
    by (rule forEach_sparse_dense)
  then show ?thesis
    using Cons by (simp add: getMostExpensiveProduct_sparse_def getMostExpensiveProduct_def index_def)
qed

lemma getMostExpensiveProduct_sparse_first_present:
  assumes "slots \<noteq> []" "hd slots = Some c"
  shows "\<exists>p. getMostExpensiveProduct_sparse slots = Inr (Value p)"
proof -
  obtain p where "forEach_sparse callback_sparse (Some c) slots = Inr (Some p)"
    using forEach_sparse_defined by blast
  then show ?thesis
    using assms by (simp add: getMostExpensiveProduct_sparse_def index_hd)
qed

lemma getMostExpensiveProduct_sparse_first_empty:
  assumes "slots \<noteq> []" "hd slots = None"
  shows "getMostExpensiveProduct_sparse slots =
           (if \<exists>p. Some p \<in> set slots then Inl TypeError else Inr Undefined)"
  using assms by (simp add: getMostExpensiveProduct_sparse_def index_hd forEach_sparse_undefined)

text \<open>
  An array whose slot 0 is empty and that holds a product makes the function throw, and
  an array that has only an empty slot makes it return \<open>undefined\<close>.
\<close>

theorem getMostExpensiveProduct_sparse_counterexample:
  "getMostExpensiveProduct_sparse [None, Some \<lparr>name = str ''b'', price = Finite 5\<rparr>]
     = Inl TypeError
   \<and> getMostExpensiveProduct_sparse [None :: product option] = Inr Undefined"
  by (simp add: getMostExpensiveProduct_sparse_def index_def callback_sparse_def)

text \<open>
  C9. On arrays without empty slots every synchronous operation returns a value and
  throws nothing: \<open>formatString\<close> one of the two case forms of its input,
  \<open>filterByRating\<close> a subsequence of its input, \<open>concatenateArrays\<close> the concatenation of
  its arguments, \<open>getInfo\<close> and \<open>getModel\<close> their formatted strings, \<open>processValue\<close> a
  length or a product by 2, \<open>getDayType\<close> one of its two strings, and
  \<open>getMostExpensiveProduct\<close> a product or \<open>null\<close>, the only absence result, for the empty
  array and no other. With empty slots \<open>getMostExpensiveProduct\<close> throws a TypeError
  exactly when the slot 0 is empty and some slot holds a product, and returns
  \<open>undefined\<close> exactly when the array is not empty and all its slots are empty.
\<close>

theorem operations_return_without_empty_slots:
  "(formatString h s flag = toUpperCase h s \<or> formatString h s flag = toLowerCase h s)
   \<and> subseq (filterByRating items) items
   \<and> concatenateArrays arrays = concat arrays
   \<and> getInfo h v = str ''Make: '' @ make' v @ str '', Year: '' @ toString h (year v)
   \<and> getModel c = str ''Model: '' @ model c
   \<and> processValue (StringValue s) = Finite (of_nat (length s))
   \<and> processValue (NumberValue x) = multiply x (Finite 2)
   \<and> (getDayType day = str ''Weekend'' \<or> getDayType day = str ''Weekday'')
   \<and> (\<exists>r. getMostExpensiveProduct_sparse (map Some products) = Inr r
          \<and> r \<noteq> Undefined \<and> (r = Null \<longleftrightarrow> products = []))
   \<and> (getMostExpensiveProduct_sparse slots = Inl TypeError
        \<longleftrightarrow> slots \<noteq> [] \<and> hd slots = None \<and> (\<exists>p. Some p \<in> set slots))
   \<and> (getMostExpensiveProduct_sparse slots = Inr Undefined
        \<longleftrightarrow> slots \<noteq> [] \<and> set slots \<subseteq> {None})
   \<and> (getMostExpensiveProduct_sparse slots = Inr Null \<longleftrightarrow> slots = [])"
proof -
  have f: "formatString h s flag = toUpperCase h s \<or> formatString h s flag = toLowerCase h s"
    by (simp add: formatString_def)
  have fi: "subseq (filterByRating items) items" by (simp add: filterByRating_def)
  have co: "concatenateArrays arrays = concat arrays"
    by (simp add: concatenateArrays_def foldl_append_concat)
  have gi: "getInfo h v = str ''Make: '' @ make' v @ str '', Year: '' @ toString h (year v)"
    by (simp add: getInfo_def)
  have gm: "getModel c = str ''Model: '' @ model c" by (simp add: getModel_def)
  have pv: "processValue (StringValue s) = Finite (of_nat (length s))"
    "processValue (NumberValue x) = multiply x (Finite 2)"
    by simp_all
  have dt: "getDayType day = str ''Weekend'' \<or> getDayType day = str ''Weekday''"
    by (simp add: getDayType_def)
  have dense: "\<exists>r. getMostExpensiveProduct_sparse (map Some products) = Inr r
          \<and> r \<noteq> Undefined \<and> (r = Null \<longleftrightarrow> products = [])"
  proof (cases products)
    case Nil
    then show ?thesis by (simp add: getMostExpensiveProduct_sparse_def)
  next
    case (Cons p ps)
    have "getMostExpensiveProduct_sparse (map Some (p # ps))
        = Inr (Value (foldl callback p ps))"
      by (simp only: getMostExpensiveProduct_sparse_dense getMostExpensiveProduct_Cons) simp
    then show ?thesis using Cons by simp
  qed
  have sparse: "(getMostExpensiveProduct_sparse slots = Inl TypeError
        \<longleftrightarrow> slots \<noteq> [] \<and> hd slots = None \<and> (\<exists>p. Some p \<in> set slots))
     \<and> (getMostExpensiveProduct_sparse slots = Inr Undefined
        \<longleftrightarrow> slots \<noteq> [] \<and> set slots \<subseteq> {None})
     \<and> (getMostExpensiveProduct_sparse slots = Inr Null \<longleftrightarrow> slots = [])"
  proof (cases "slots = []")
    case True
    then show ?thesis by (simp add: getMostExpensiveProduct_sparse_def)
  next
    case ne: False
    show ?thesis
    proof (cases "hd slots")
      case None
      have "(\<exists>p. Some p \<in> set slots) \<longleftrightarrow> \<not> set slots \<subseteq> {None}"
        by (auto simp: subset_iff)
      then show ?thesis
        using ne None by (simp add: getMostExpensiveProduct_sparse_first_empty)
    next
      case (Some c)
      from getMostExpensiveProduct_sparse_first_present [OF ne Some]
      obtain p where p: "getMostExpensiveProduct_sparse slots = Inr (Value p)" by blast
      have "hd slots \<in> set slots" using ne by simp
      then have "\<not> set slots \<subseteq> {None}" using Some by auto
      then show ?thesis using ne Some p by simp
    qed
  qed
  show ?thesis
    by (intro conjI f fi co gi gm pv dt dense sparse [THEN conjunct1]
        sparse [THEN conjunct2, THEN conjunct1] sparse [THEN conjunct2, THEN conjunct2])
qed

theorem operations_return_without_empty_slots_witness:
  "getMostExpensiveProduct_sparse (map Some [\<lparr>name = str ''a'', price = Finite 3\<rparr>])
     \<noteq> Inl TypeError
   \<and> getMostExpensiveProduct_sparse (map Some [\<lparr>name = str ''a'', price = Finite 3\<rparr>])
     \<noteq> Inr Undefined
   \<and> getMostExpensiveProduct_sparse (map Some [\<lparr>name = str ''a'', price = Finite 3\<rparr>])
     \<noteq> Inr Null
   \<and> getMostExpensiveProduct_sparse ([] :: product option list) = Inr Null
   \<and> getDayType Monday = str ''Weekday''"
proof -
  let ?a = "\<lparr>name = str ''a'', price = Finite 3\<rparr>"
  note t = operations_return_without_empty_slots [where slots = "map Some [?a]" and day = Monday]
  note u = operations_return_without_empty_slots [where slots = "[] :: product option list"]
  from t have "getMostExpensiveProduct_sparse (map Some [?a]) = Inl TypeError
      \<longleftrightarrow> map Some [?a] \<noteq> [] \<and> hd (map Some [?a]) = None
          \<and> (\<exists>p. Some p \<in> set (map Some [?a]))"
    by blast
  then have 1: "getMostExpensiveProduct_sparse (map Some [?a]) \<noteq> Inl TypeError" by simp
  from t have "getMostExpensiveProduct_sparse (map Some [?a]) = Inr Undefined
      \<longleftrightarrow> map Some [?a] \<noteq> [] \<and> set (map Some [?a]) \<subseteq> {None}"
    by blast
  then have 2: "getMostExpensiveProduct_sparse (map Some [?a]) \<noteq> Inr Undefined" by simp
  from t have "getMostExpensiveProduct_sparse (map Some [?a]) = Inr Null
      \<longleftrightarrow> map Some [?a] = []"
    by blast
  then have 3: "getMostExpensiveProduct_sparse (map Some [?a]) \<noteq> Inr Null" by simp
  from u have "getMostExpensiveProduct_sparse ([] :: product option list) = Inr Null
      \<longleftrightarrow> ([] :: product option list) = []"
    by blast
  then have 4: "getMostExpensiveProduct_sparse ([] :: product option list) = Inr Null" by simp
  from t have "getDayType Monday = str ''Weekend'' \<or> getDayType Monday = str ''Weekday''"
    by blast
  moreover have "getDayType Monday \<noteq> str ''Weekend''" by (simp add: getDayType_def str_def)
  ultimately have 5: "getDayType Monday = str ''Weekday''" by blast
  from 1 2 3 4 5 show ?thesis by blast
qed

end
